theory Spec2Isabelle
  imports Complex_Main
begin

section \<open>The prediction-error simulation: reward, slack and expected reward\<close>

text \<open>
  The source is \<^verbatim>\<open>src/prediction-error/index.js\<close>. Its functions are given
  twice. First in exact arithmetic: a JavaScript number is the real number it stands
  for, \<^verbatim>\<open>Math.log\<close> is \<open>ln\<close>, \<^verbatim>\<open>Math.exp\<close> is \<open>exp\<close>,
  \<^verbatim>\<open>Math.abs\<close> is \<open>abs\<close>, and the decimal constants are the rationals they
  denote. This is the reading in which the spec states its formulas. Second, for
  \<^verbatim>\<open>reward\<close>, in the IEEE double arithmetic the program runs in, where
  every constant and every operation is rounded; this reading settles the two
  statements that rounding decides (the size of the reward at the clamp bounds and
  the strictness of its sign).
\<close>

subsection \<open>The two library pieces the source calls\<close>

text \<open>
  Modelled from the spec: \<^verbatim>\<open>_.clamp\<close> belongs to the lodash package, which
  is not part of the repository. The spec says that a value is clamped into
  \<open>[lower, upper]\<close>. The definition follows the order of lodash's comparisons:
  the upper bound is applied first, the lower bound second.
\<close>

definition clamp :: "real \<Rightarrow> real \<Rightarrow> real \<Rightarrow> real" where
  "clamp number lower upper =
     (let n = (if number \<le> upper then number else upper)
      in if n \<ge> lower then n else lower)"

text \<open>
  Modelled from the spec: the class \<^verbatim>\<open>Categorical\<close> belongs to the lately
  package, which is not part of the repository. The spec (sections 3 and 4.1) describes
  it as a mapping from events to accumulated weights, empty at first, together with a
  running total. The weights are kept in the order in which the events were first
  learned, which is the order \<^verbatim>\<open>events()\<close> lists them in.
\<close>

record 'e categorical =
  weights :: "('e \<times> real) list"
  total :: real

text \<open>Modelled from the spec: \<^verbatim>\<open>new Categorical()\<close>, with no event and total 0.\<close>

definition new_categorical :: "'e categorical" where
  "new_categorical = \<lparr>weights = [], total = 0\<rparr>"

text \<open>
  Modelled from the spec: \<^verbatim>\<open>learn(event)\<close> adds 1 to the weight of the event,
  creating the entry when it is absent, and adds 1 to the total.
\<close>

definition learn :: "'e categorical \<Rightarrow> 'e \<Rightarrow> 'e categorical" where
  "learn c ev =
     (case map_of (weights c) ev of
        None \<Rightarrow> \<lparr>weights = weights c @ [(ev, 1)], total = total c + 1\<rparr>
      | Some w \<Rightarrow>
          \<lparr>weights = map (\<lambda>(e, v). if e = ev then (e, v + 1) else (e, v)) (weights c),
           total = total c + 1\<rparr>)"

text \<open>Modelled from the spec: \<^verbatim>\<open>events()\<close>, the distinct events observed.\<close>

definition events :: "'e categorical \<Rightarrow> 'e list" where
  "events c = map fst (weights c)"

text \<open>Modelled from the spec: \<^verbatim>\<open>weightSum()\<close>, the total accumulated weight.\<close>

definition weightSum :: "'e categorical \<Rightarrow> real" where
  "weightSum c = total c"

text \<open>
  Modelled from the spec: \<^verbatim>\<open>prob(event)\<close> is the weight of the event divided by
  the total when the total is positive, and 0 otherwise; an event never seen has
  weight 0.
\<close>

definition prob :: "'e categorical \<Rightarrow> 'e \<Rightarrow> real" where
  "prob c ev =
     (if total c > 0
      then (case map_of (weights c) ev of None \<Rightarrow> 0 | Some w \<Rightarrow> w) / total c
      else 0)"

subsection \<open>The functions of the source\<close>

text \<open>
  \<^verbatim>\<open>reward\<close> (lines 44 to 53): both arguments are clamped with
  \<^verbatim>\<open>prec = 0.0001\<close>, then the difference of the two log-odds is returned.
\<close>

definition reward :: "real \<Rightarrow> real \<Rightarrow> real" where
  "reward prior p =
     (let prec = 0.0001;
          prior' = clamp prior prec (1 - prec);
          p' = clamp p prec (1 - prec)
      in ln (p' / (1 - p')) - ln (prior' / (1 - prior')))"

text \<open>
  \<^verbatim>\<open>slack\<close> (lines 55 to 60). JavaScript reads
  \<^verbatim>\<open>-lnx * lnx / 6\<close> as \<open>((- lnx) * lnx) / 6\<close>.
\<close>

definition slack :: "real \<Rightarrow> real" where
  "slack x = (let lnx = ln x in 0.95 * exp (((- lnx) * lnx) / 6))"

text \<open>
  \<^verbatim>\<open>expectedReward\<close> (lines 62 to 83): a left fold over the events of the
  population, starting at 0, which adds the absolute reward of each event divided
  by the number of events.
\<close>

definition expectedReward :: "'e categorical \<Rightarrow> 'e categorical \<Rightarrow> real" where
  "expectedReward pop sam =
     (let evs = events pop
      in foldl (\<lambda>acc ev.
           let pp = prob pop ev;
               p = prob sam ev;
               rew = \<bar>reward pp p\<bar>
           in acc + rew / real (length evs)) 0 evs)"

text \<open>
  The training loop of the driver (lines 101 to 104 and 118 to 121): a fresh
  categorical learns the events of an array in order.
\<close>

definition train :: "'e list \<Rightarrow> 'e categorical" where
  "train evs = foldl learn new_categorical evs"

subsection \<open>The spec's vocabulary\<close>

text \<open>
  The spec's words, written down on their own so that the source can be compared
  with them: a probability clamped into \<open>[\<epsilon>, 1 - \<epsilon>]\<close> with
  \<open>\<epsilon> = 0.0001\<close> is the nearest point of that interval, and the logit
  (log-odds) of \<open>x\<close> is \<open>ln (x / (1 - x))\<close>.
\<close>

definition clamped :: "real \<Rightarrow> real" where
  "clamped x = (if x < 0.0001 then 0.0001 else if x > 0.9999 then 0.9999 else x)"

definition logit :: "real \<Rightarrow> real" where
  "logit x = ln (x / (1 - x))"

subsection \<open>IEEE doubles\<close>

text \<open>
  A finite double is the real number it stands for. \<open>rnd x\<close> is the double nearest
  to the real \<open>x\<close>: when \<open>\<bar>x\<bar>\<close> lies between \<open>2 ^ e\<close> and \<open>2 ^ (e + 1)\<close>, the
  doubles around \<open>x\<close> are the multiples of \<open>2 ^ (e - 52)\<close> (a significand of 53
  bits), and \<open>x\<close> goes to the nearest multiple, to the even one when it lies half
  way between two. The exponent is not bounded: the quantities that
  \<^verbatim>\<open>reward\<close> rounds lie between \<open>2 ^ (-14)\<close> and \<open>2 ^ 14\<close>, or are
  the difference of two logarithms, so that overflow plays no part.
\<close>

definition round_even :: "real \<Rightarrow> int" where
  "round_even t =
     (let f = \<lfloor>t\<rfloor>; d = t - of_int f
      in if d < 1 / 2 then f else if 1 / 2 < d then f + 1 else if even f then f else f + 1)"

definition rnd :: "real \<Rightarrow> real" where
  "rnd x =
     (if x = 0 then 0
      else let q = 2 powr (of_int \<lfloor>log 2 \<bar>x\<bar>\<rfloor> - 52)
           in of_int (round_even (x / q)) * q)"

text \<open>The unit roundoff: rounding changes a number by at most this fraction of it.\<close>

definition unit_roundoff :: real where
  "unit_roundoff = 1 / 2 ^ 53"

text \<open>
  The two constants of \<^verbatim>\<open>reward\<close> as doubles: the literal
  \<^verbatim>\<open>0.0001\<close>, and the result of \<^verbatim>\<open>1 - prec\<close>.
\<close>

definition dbl_prec :: real where
  "dbl_prec = 7378697629483821 / 2 ^ 66"

definition dbl_upper :: real where
  "dbl_upper = 9006298534815518 / 2 ^ 53"

text \<open>
  \<^verbatim>\<open>reward\<close> (lines 44 to 53) in doubles. The literal, both subtractions
  from 1, both divisions and the final subtraction are rounded; the comparisons of
  the clamp are exact. The language standard leaves the value of
  \<^verbatim>\<open>Math.log\<close> to the engine (it is an approximation of the logarithm), so
  the engine's logarithm is the parameter \<open>lg\<close>. The result \<open>None\<close> stands for a
  result that is not a finite number: a division by zero gives an infinity, the
  logarithm of zero or of a negative number gives an infinity or NaN, and the
  subtraction hands them on.
\<close>

definition reward_double :: "(real \<Rightarrow> real) \<Rightarrow> real \<Rightarrow> real \<Rightarrow> real option" where
  "reward_double lg prior p =
     (let prec = rnd 0.0001;
          upper = rnd (1 - prec);
          prior' = clamp prior prec upper;
          p' = clamp p prec upper;
          dp = rnd (1 - p');
          dprior = rnd (1 - prior')
      in if dp = 0 \<or> dprior = 0 then None
         else let op = rnd (p' / dp);
                  oprior = rnd (prior' / dprior)
              in if op \<le> 0 \<or> oprior \<le> 0 then None
                 else Some (rnd (lg op - lg oprior)))"

text \<open>The odds \<^verbatim>\<open>p / (1 - p)\<close> of a clamped probability, in doubles.\<close>

definition odds_double :: "real \<Rightarrow> real" where
  "odds_double c = rnd (c / rnd (1 - c))"

text \<open>
  What is asked of the engine's logarithm: on \<open>[0.0001, 10000]\<close>, where the
  logarithm lies between \<open>-9.22\<close> and \<open>9.22\<close>, it errs by at most \<open>1 / 2 ^ 49\<close>,
  which is one unit in the last place of a double between 8 and 16. The correctly
  rounded logarithm \<open>ln_double\<close> is one such function.
\<close>

definition log_accurate :: "(real \<Rightarrow> real) \<Rightarrow> bool" where
  "log_accurate lg \<longleftrightarrow> (\<forall>x. 1 / 10000 \<le> x \<and> x \<le> 10000 \<longrightarrow> \<bar>lg x - ln x\<bar> \<le> 1 / 2 ^ 49)"

definition ln_double :: "real \<Rightarrow> real" where
  "ln_double x = rnd (ln x)"

section \<open>Auxiliary facts\<close>

subsection \<open>Clamping\<close>

lemma clamp_prec: "clamp x (1 / 10000) (9999 / 10000) = clamped x"
  by (simp add: clamp_def clamped_def Let_def)

lemma clamped_range: "1 / 10000 \<le> clamped x \<and> clamped x \<le> 9999 / 10000"
  by (simp add: clamped_def)

lemma clamped_mono: "x \<le> y \<Longrightarrow> clamped x \<le> clamped y"
  by (simp add: clamped_def)

subsection \<open>Log-odds\<close>

lemma odds_pos: "0 < a \<Longrightarrow> a < 1 \<Longrightarrow> 0 < a / (1 - a)" for a :: real
  by simp

lemma odds_mono: "0 < a \<Longrightarrow> a \<le> b \<Longrightarrow> b < 1 \<Longrightarrow> a / (1 - a) \<le> b / (1 - b)"
  for a b :: real
  by (rule frac_le) simp_all

lemma logit_mono: "0 < a \<Longrightarrow> a \<le> b \<Longrightarrow> b < 1 \<Longrightarrow> logit a \<le> logit b"
  unfolding logit_def using odds_mono [of a b] odds_pos [of a] by simp

lemma logit_lo: "logit (1 / 10000) = - ln 9999"
  by (simp add: logit_def ln_div)

lemma logit_hi: "logit (9999 / 10000) = ln 9999"
  by (simp add: logit_def)

lemma logit_clamped_bounds: "- ln 9999 \<le> logit (clamped x) \<and> logit (clamped x) \<le> ln 9999"
proof -
  have r: "1 / 10000 \<le> clamped x" "clamped x \<le> 9999 / 10000"
    using clamped_range [of x] by simp_all
  have "logit (1 / 10000) \<le> logit (clamped x)"
    using r by (intro logit_mono) simp_all
  moreover have "logit (clamped x) \<le> logit (9999 / 10000)"
    using r by (intro logit_mono) simp_all
  ultimately show ?thesis by (simp only: logit_lo logit_hi)
qed

subsection \<open>The reward as a difference of log-odds\<close>

lemma reward_logit: "reward prior p = logit (clamped p) - logit (clamped prior)"
  by (simp add: reward_def Let_def clamp_prec logit_def)

lemma reward_same: "reward x x = 0"
  by (simp add: reward_logit)

lemma reward_swap: "reward prior p = - reward p prior"
  by (simp add: reward_logit)



lemma reward_exact_bound: "\<bar>reward prior p\<bar> \<le> 2 * ln ((1 - 0.0001) / 0.0001)"
proof -
  have "\<bar>logit (clamped p) - logit (clamped prior)\<bar> \<le> 2 * ln 9999"
    using logit_clamped_bounds [of p] logit_clamped_bounds [of prior] by linarith
  then show ?thesis
    by (simp add: reward_logit)
qed

subsection \<open>Rounding to the nearest double\<close>

lemma round_even_err: "\<bar>of_int (round_even t) - t\<bar> \<le> 1 / 2"
  unfolding round_even_def Let_def by (auto; linarith)

lemma round_even_floor: "\<lfloor>t\<rfloor> \<le> round_even t" "round_even t \<le> \<lfloor>t\<rfloor> + 1"
  by (simp_all add: round_even_def Let_def)

lemma round_even_of_int: "round_even (of_int n) = n"
  by (simp add: round_even_def Let_def)

lemma round_even_mono: "s \<le> t \<Longrightarrow> round_even s \<le> round_even t"
proof -
  assume st: "s \<le> t"
  then have "\<lfloor>s\<rfloor> \<le> \<lfloor>t\<rfloor>" by (rule floor_mono)
  then consider "\<lfloor>s\<rfloor> = \<lfloor>t\<rfloor>" | "\<lfloor>s\<rfloor> + 1 \<le> \<lfloor>t\<rfloor>" by linarith
  then show ?thesis
  proof cases
    case 1
    then show ?thesis
      using st by (simp add: round_even_def Let_def)
  next
    case 2
    then show ?thesis
      using round_even_floor(2) [of s] round_even_floor(1) [of t] by linarith
  qed
qed

lemma rnd_eval:
  assumes "x \<noteq> 0" and "2 powr of_int e \<le> \<bar>x\<bar>" and "\<bar>x\<bar> < 2 powr (of_int e + 1)"
  shows "rnd x = of_int (round_even (x / 2 powr (of_int e - 52))) * 2 powr (of_int e - 52)"
proof -
  have "\<lfloor>log 2 \<bar>x\<bar>\<rfloor> = e"
    using assms by (subst floor_log_eq_powr_iff) simp_all
  then show ?thesis
    using assms(1) by (simp add: rnd_def Let_def)
qed

lemma rnd_rel: "\<bar>rnd x - x\<bar> \<le> \<bar>x\<bar> / 2 ^ 53"
proof (cases "x = 0")
  case True
  then show ?thesis by (simp add: rnd_def)
next
  case False
  define e where "e = \<lfloor>log 2 \<bar>x\<bar>\<rfloor>"
  define q :: real where "q = 2 powr (of_int e - 52)"
  have qpos: "0 < q" by (simp add: q_def)
  have lo: "2 powr of_int e \<le> \<bar>x\<bar>"
    using False floor_log_eq_powr_iff [of "\<bar>x\<bar>" 2 e] by (simp add: e_def)
  have q2: "q = 2 powr of_int e / 2 ^ 52"
    by (simp add: q_def powr_diff)
  have r: "rnd x = of_int (round_even (x / q)) * q"
    using False by (simp add: rnd_def Let_def e_def q_def)
  have "rnd x - x = (of_int (round_even (x / q)) - x / q) * q"
    using qpos by (simp add: r left_diff_distrib)
  then have "\<bar>rnd x - x\<bar> = \<bar>of_int (round_even (x / q)) - x / q\<bar> * q"
    using qpos by (simp add: abs_mult)
  also have "\<dots> \<le> (1 / 2) * q"
    using round_even_err [of "x / q"] qpos by (intro mult_right_mono) simp_all
  also have "\<dots> = 2 powr of_int e / 2 ^ 53"
    by (simp add: q2)
  also have "\<dots> \<le> \<bar>x\<bar> / 2 ^ 53"
    using lo by (simp add: divide_right_mono)
  finally show ?thesis .
qed

lemma unit_roundoff_range: "0 < unit_roundoff" "unit_roundoff < 1"
  by (simp_all add: unit_roundoff_def)

lemma rnd_pos_bounds:
  assumes "0 < x"
  shows "x * (1 - unit_roundoff) \<le> rnd x" and "rnd x \<le> x * (1 + unit_roundoff)"
    and "0 < rnd x"
proof -
  have a: "\<bar>rnd x - x\<bar> \<le> x * unit_roundoff"
    using rnd_rel [of x] assms by (simp add: unit_roundoff_def)
  have b: "x - x * unit_roundoff \<le> rnd x" "rnd x \<le> x + x * unit_roundoff"
    using a by linarith+
  show 1: "x * (1 - unit_roundoff) \<le> rnd x"
    using b(1) by (simp add: right_diff_distrib)
  show "rnd x \<le> x * (1 + unit_roundoff)"
    using b(2) by (simp add: distrib_left)
  have "0 < x * (1 - unit_roundoff)"
    using assms unit_roundoff_range by simp
  then show "0 < rnd x"
    using 1 by linarith
qed

lemma rnd_nonneg: "0 \<le> z \<Longrightarrow> 0 \<le> rnd z"
proof -
  assume z: "0 \<le> z"
  have "\<bar>rnd z - z\<bar> \<le> \<bar>z\<bar> / 2 ^ 53"
    by (rule rnd_rel)
  moreover have "z / 2 ^ 53 \<le> z"
    using z by (simp add: field_simps)
  ultimately show ?thesis
    using z by linarith
qed

lemma rnd_nonpos: "z \<le> 0 \<Longrightarrow> rnd z \<le> 0"
proof -
  assume z: "z \<le> 0"
  have "\<bar>rnd z - z\<bar> \<le> \<bar>z\<bar> / 2 ^ 53"
    by (rule rnd_rel)
  moreover have "\<bar>z\<bar> / 2 ^ 53 = - (z / 2 ^ 53)"
    using z by simp
  moreover have "z \<le> z / 2 ^ 53"
    using z by (simp add: field_simps)
  ultimately show ?thesis
    by linarith
qed

lemma rnd_binade:
  assumes "0 < x"
  defines "e \<equiv> \<lfloor>log 2 x\<rfloor>"
  shows "rnd x = of_int (round_even (x / 2 powr (of_int e - 52))) * 2 powr (of_int e - 52)"
    and "2 powr of_int e \<le> rnd x" and "rnd x \<le> 2 powr (of_int e + 1)"
proof -
  define q :: real where "q = 2 powr (of_int e - 52)"
  have q: "0 < q" by (simp add: q_def)
  have b: "2 powr of_int e \<le> x" "x < 2 powr (of_int e + 1)"
    using assms(1) floor_log_eq_powr_iff [of x 2 e] by (simp_all add: e_def)
  have p: "2 powr of_int e = 2 ^ 52 * q" "2 powr (of_int e + 1) = 2 ^ 53 * q"
    by (simp_all add: q_def powr_diff powr_add)
  show r: "rnd x = of_int (round_even (x / 2 powr (of_int e - 52))) * 2 powr (of_int e - 52)"
    using assms(1) by (simp add: rnd_def Let_def e_def)
  have "of_int (2 ^ 52) \<le> x / q"
    using b(1) q by (simp add: p pos_le_divide_eq)
  then have "round_even (of_int (2 ^ 52)) \<le> round_even (x / q)"
    by (rule round_even_mono)
  then have "(2 ^ 52 :: real) \<le> of_int (round_even (x / q))"
    unfolding round_even_of_int by (metis of_int_le_iff of_int_numeral of_int_power)
  then have "2 ^ 52 * q \<le> of_int (round_even (x / q)) * q"
    using q by (intro mult_right_mono) simp_all
  then show "2 powr of_int e \<le> rnd x"
    by (simp add: r p(1) q_def [symmetric])
  have "x / q \<le> of_int (2 ^ 53)"
    using b(2) q by (simp add: p pos_divide_le_eq)
  then have "round_even (x / q) \<le> round_even (of_int (2 ^ 53))"
    by (rule round_even_mono)
  then have "of_int (round_even (x / q)) \<le> (2 ^ 53 :: real)"
    unfolding round_even_of_int by (metis of_int_le_iff of_int_numeral of_int_power)
  then have "of_int (round_even (x / q)) * q \<le> 2 ^ 53 * q"
    using q by (intro mult_right_mono) simp_all
  then show "rnd x \<le> 2 powr (of_int e + 1)"
    by (simp add: r p(2) q_def [symmetric])
qed

lemma rnd_mono_pos:
  assumes "0 < x" "x \<le> y"
  shows "rnd x \<le> rnd y"
proof -
  have y: "0 < y" using assms by linarith
  have "log 2 x \<le> log 2 y"
    using assms by simp
  then have "\<lfloor>log 2 x\<rfloor> \<le> \<lfloor>log 2 y\<rfloor>"
    by (rule floor_mono)
  then consider "\<lfloor>log 2 x\<rfloor> = \<lfloor>log 2 y\<rfloor>" | "\<lfloor>log 2 x\<rfloor> + 1 \<le> \<lfloor>log 2 y\<rfloor>"
    by linarith
  then show ?thesis
  proof cases
    case 1
    define q :: real where "q = 2 powr (of_int \<lfloor>log 2 y\<rfloor> - 52)"
    have q: "0 < q" by (simp add: q_def)
    have "x / q \<le> y / q"
      using assms(2) q by (simp add: divide_right_mono)
    then have "round_even (x / q) \<le> round_even (y / q)"
      by (rule round_even_mono)
    then have "of_int (round_even (x / q)) * q \<le> of_int (round_even (y / q)) * q"
      using q by (intro mult_right_mono) simp_all
    then show ?thesis
      using rnd_binade(1) [OF assms(1)] rnd_binade(1) [OF y] by (simp add: 1 q_def)
  next
    case 2
    then have "of_int \<lfloor>log 2 x\<rfloor> + (1 :: real) \<le> of_int \<lfloor>log 2 y\<rfloor>"
      by (metis of_int_1 of_int_add of_int_le_iff)
    then have "(2 :: real) powr (of_int \<lfloor>log 2 x\<rfloor> + 1) \<le> 2 powr of_int \<lfloor>log 2 y\<rfloor>"
      by simp
    then show ?thesis
      using rnd_binade(3) [OF assms(1)] rnd_binade(2) [OF y] by linarith
  qed
qed

subsection \<open>The constants of the reward as doubles\<close>

lemma rnd_prec: "rnd (1 / 10000) = 7378697629483821 / 2 ^ 66"
proof -
  have "rnd (1 / 10000) =
      of_int (round_even ((1 / 10000) / 2 powr (of_int (- 14) - 52))) * 2 powr (of_int (- 14) - 52)"
    by (rule rnd_eval) (simp_all add: powr_neg_numeral)
  also have "2 powr (of_int (- 14) - 52) = (1 / 2 ^ 66 :: real)"
    by (simp add: powr_neg_numeral)
  also have "round_even ((1 / 10000) / (1 / 2 ^ 66)) = 7378697629483821"
    by (simp add: round_even_def Let_def)
  finally show ?thesis by simp
qed

lemma rnd_upper: "rnd (1 - 7378697629483821 / 2 ^ 66) = 9006298534815518 / 2 ^ 53"
proof -
  have "rnd (1 - 7378697629483821 / 2 ^ 66) =
      of_int (round_even ((1 - 7378697629483821 / 2 ^ 66) / 2 powr (of_int (- 1) - 52)))
        * 2 powr (of_int (- 1) - 52)"
    by (rule rnd_eval) (simp_all add: powr_neg_numeral)
  also have "2 powr (of_int (- 1) - 52) = (1 / 2 ^ 53 :: real)"
    by (simp add: powr_neg_numeral)
  also have "round_even ((1 - 7378697629483821 / 2 ^ 66) / (1 / 2 ^ 53)) = 9006298534815518"
    by (simp add: round_even_def Let_def)
  finally show ?thesis by simp
qed

lemma rnd_consts: "rnd (1 / 10000) = dbl_prec" "rnd (1 - dbl_prec) = dbl_upper"
  using rnd_prec rnd_upper by (simp_all add: dbl_prec_def dbl_upper_def)

lemma dbl_consts_range: "0 < dbl_prec" "dbl_prec \<le> dbl_upper" "dbl_upper < 1"
  by (simp_all add: dbl_prec_def dbl_upper_def)

lemma clamp_between:
  "lower \<le> upper \<Longrightarrow> lower \<le> clamp x lower upper \<and> clamp x lower upper \<le> upper"
  by (simp add: clamp_def Let_def)

lemma clamp_mono: "x \<le> y \<Longrightarrow> clamp x lower upper \<le> clamp y lower upper"
  by (simp add: clamp_def Let_def)

subsection \<open>Logarithms near a known value\<close>

lemma ln_le_add:
  fixes y a k :: real
  assumes "0 < y" "0 < a" "0 \<le> k" "y \<le> a * (1 + k)"
  shows "ln y \<le> ln a + k"
proof -
  have "ln y \<le> ln (a * (1 + k))"
    using assms by simp
  also have "\<dots> = ln a + ln (1 + k)"
    using assms by (simp add: ln_mult)
  also have "\<dots> \<le> ln a + k"
    using assms ln_add_one_self_le_self [of k] by simp
  finally show ?thesis .
qed

lemma ln_ge_sub:
  fixes y a k :: real
  assumes "0 < a" "0 \<le> k" "a / (1 + k) \<le> y"
  shows "ln a - k \<le> ln y"
proof -
  have pos: "0 < a / (1 + k)"
    using assms by simp
  have "ln a - k \<le> ln a - ln (1 + k)"
    using assms ln_add_one_self_le_self [of k] by simp
  also have "\<dots> = ln (a / (1 + k))"
    using assms by (simp add: ln_div)
  also have "\<dots> \<le> ln y"
    using pos assms(3) by simp
  finally show ?thesis .
qed

lemma ln_ge_add:
  fixes y a g :: real
  assumes "0 < a" "0 \<le> g" "g < 1" "a / (1 - g) \<le> y"
  shows "ln a + g \<le> ln y"
proof -
  have pos: "0 < a / (1 - g)"
    using assms by simp
  have "ln (1 - g) \<le> - g"
    using assms ln_le_minus_one [of "1 - g"] by simp
  then have "ln a + g \<le> ln a - ln (1 - g)"
    by simp
  also have "\<dots> = ln (a / (1 - g))"
    using assms by (simp add: ln_div)
  also have "\<dots> \<le> ln y"
    using pos assms(4) by simp
  finally show ?thesis .
qed

lemma ln_le_14: "0 < x \<Longrightarrow> x \<le> 2 ^ 14 \<Longrightarrow> ln x \<le> 14" for x :: real
proof -
  assume x: "0 < x" "x \<le> 2 ^ 14"
  then have "ln x \<le> ln (2 ^ 14 :: real)"
    by (intro ln_mono) simp_all
  also have "\<dots> = real 14 * ln 2"
    by (rule ln_realpow)
  also have "\<dots> \<le> 14"
    using ln_2_less_1 by simp
  finally show ?thesis .
qed

subsection \<open>The odds in doubles\<close>

lemma odds_double_bounds:
  assumes "0 < c" "c < 1"
  shows "0 < rnd (1 - c)"
    and "c / (1 - c) * ((1 - unit_roundoff) / (1 + unit_roundoff)) \<le> odds_double c"
    and "odds_double c \<le> c / (1 - c) * ((1 + unit_roundoff) / (1 - unit_roundoff))"
proof -
  define t where "t = 1 - c"
  define d where "d = rnd t"
  define e where "e = unit_roundoff"
  have e: "0 < e" "e < 1"
    using unit_roundoff_range by (simp_all add: e_def)
  have t: "0 < t" using assms by (simp add: t_def)
  have d: "t * (1 - e) \<le> d" "d \<le> t * (1 + e)" "0 < d"
    unfolding d_def e_def using rnd_pos_bounds [OF t] by simp_all
  show "0 < rnd (1 - c)"
    using d(3) by (simp add: d_def t_def)
  have y: "0 < c / d" using assms d(3) by simp
  have o: "c / d * (1 - e) \<le> rnd (c / d)" "rnd (c / d) \<le> c / d * (1 + e)"
    unfolding e_def using rnd_pos_bounds [OF y] by simp_all
  have "c / (t * (1 + e)) \<le> c / d"
    using assms d t e by (intro divide_left_mono) simp_all
  then have "c / (t * (1 + e)) * (1 - e) \<le> c / d * (1 - e)"
    using e by (intro mult_right_mono) simp_all
  then have "c / (t * (1 + e)) * (1 - e) \<le> rnd (c / d)"
    using o(1) by linarith
  then show "c / (1 - c) * ((1 - unit_roundoff) / (1 + unit_roundoff)) \<le> odds_double c"
    by (simp add: odds_double_def d_def t_def e_def)
  have lo: "0 < t * (1 - e)" using t e by simp
  have "c / d \<le> c / (t * (1 - e))"
    using assms d lo by (intro divide_left_mono) simp_all
  then have "c / d * (1 + e) \<le> c / (t * (1 - e)) * (1 + e)"
    using e by (intro mult_right_mono) simp_all
  then have "rnd (c / d) \<le> c / (t * (1 - e)) * (1 + e)"
    using o(2) by linarith
  then show "odds_double c \<le> c / (1 - c) * ((1 + unit_roundoff) / (1 - unit_roundoff))"
    by (simp add: odds_double_def d_def t_def e_def)
qed

lemma odds_numeric:
  "dbl_upper / (1 - dbl_upper) * ((1 + unit_roundoff) / (1 - unit_roundoff))
     \<le> 9999 * (1 + 2 / 10 ^ 13)"
  "(1 / 9999) / (1 + 1 / 10 ^ 15)
     \<le> dbl_prec / (1 - dbl_prec) * ((1 - unit_roundoff) / (1 + unit_roundoff))"
  "9999 / (1 - 109 / 10 ^ 15)
     \<le> dbl_upper / (1 - dbl_upper) * ((1 - unit_roundoff) / (1 + unit_roundoff))"
  "dbl_prec / (1 - dbl_prec) * ((1 + unit_roundoff) / (1 - unit_roundoff))
     \<le> (1 / 9999) * (1 + 1 / 10 ^ 15)"
  by (simp_all add: dbl_prec_def dbl_upper_def unit_roundoff_def)

lemma odds_double_range:
  assumes "dbl_prec \<le> c" "c \<le> dbl_upper"
  shows "(1 / 9999) / (1 + 1 / 10 ^ 15) \<le> odds_double c"
    and "odds_double c \<le> 9999 * (1 + 2 / 10 ^ 13)"
proof -
  have c: "0 < c" "c < 1"
    using assms dbl_consts_range by linarith+
  have k: "0 \<le> (1 - unit_roundoff) / (1 + unit_roundoff)"
      "0 \<le> (1 + unit_roundoff) / (1 - unit_roundoff)"
    using unit_roundoff_range by simp_all
  have "dbl_prec / (1 - dbl_prec) \<le> c / (1 - c)"
    using assms c dbl_consts_range by (intro odds_mono) simp_all
  then have "dbl_prec / (1 - dbl_prec) * ((1 - unit_roundoff) / (1 + unit_roundoff))
      \<le> c / (1 - c) * ((1 - unit_roundoff) / (1 + unit_roundoff))"
    using k(1) by (rule mult_right_mono)
  then show "(1 / 9999) / (1 + 1 / 10 ^ 15) \<le> odds_double c"
    using odds_double_bounds(2) [OF c] odds_numeric(2) by linarith
  have "c / (1 - c) \<le> dbl_upper / (1 - dbl_upper)"
    using assms c dbl_consts_range by (intro odds_mono) simp_all
  then have "c / (1 - c) * ((1 + unit_roundoff) / (1 - unit_roundoff))
      \<le> dbl_upper / (1 - dbl_upper) * ((1 + unit_roundoff) / (1 - unit_roundoff))"
    using k(2) by (rule mult_right_mono)
  then show "odds_double c \<le> 9999 * (1 + 2 / 10 ^ 13)"
    using odds_double_bounds(3) [OF c] odds_numeric(1) by linarith
qed

lemma odds_double_window:
  assumes "dbl_prec \<le> c" "c \<le> dbl_upper"
  shows "0 < odds_double c" "1 / 10000 \<le> odds_double c" "odds_double c \<le> 10000"
  using odds_double_range [OF assms] by simp_all

lemma ln_odds_double_range:
  assumes "dbl_prec \<le> c" "c \<le> dbl_upper"
  shows "- ln 9999 - 1 / 10 ^ 15 \<le> ln (odds_double c)"
    and "ln (odds_double c) \<le> ln 9999 + 2 / 10 ^ 13"
proof -
  have "ln (1 / 9999) - 1 / 10 ^ 15 \<le> ln (odds_double c)"
    using odds_double_range(1) [OF assms] by (intro ln_ge_sub) simp_all
  then show "- ln 9999 - 1 / 10 ^ 15 \<le> ln (odds_double c)"
    by (simp add: ln_div)
  show "ln (odds_double c) \<le> ln 9999 + 2 / 10 ^ 13"
    using odds_double_range(2) [OF assms] odds_double_window(1) [OF assms]
    by (intro ln_le_add) simp_all
qed

lemma ln_odds_double_upper: "ln 9999 + 109 / 10 ^ 15 \<le> ln (odds_double dbl_upper)"
proof -
  have c: "0 < dbl_upper" "dbl_upper < 1"
    using dbl_consts_range by linarith+
  have "9999 / (1 - 109 / 10 ^ 15) \<le> odds_double dbl_upper"
    using odds_double_bounds(2) [OF c] odds_numeric(3) by linarith
  then show ?thesis
    by (intro ln_ge_add) simp_all
qed

lemma ln_odds_double_prec: "ln (odds_double dbl_prec) \<le> - ln 9999 + 1 / 10 ^ 15"
proof -
  have c: "0 < dbl_prec" "dbl_prec < 1"
    using dbl_consts_range by linarith+
  have r: "dbl_prec \<le> dbl_prec" "dbl_prec \<le> dbl_upper"
    using dbl_consts_range by simp_all
  have "odds_double dbl_prec \<le> (1 / 9999) * (1 + 1 / 10 ^ 15)"
    using odds_double_bounds(3) [OF c] odds_numeric(4) by linarith
  then have "ln (odds_double dbl_prec) \<le> ln (1 / 9999) + 1 / 10 ^ 15"
    using odds_double_window(1) [OF r] by (intro ln_le_add) simp_all
  then show ?thesis
    by (simp add: ln_div)
qed

lemma odds_double_mono:
  assumes "0 < c1" "c1 \<le> c2" "c2 < 1"
  shows "odds_double c1 \<le> odds_double c2"
proof -
  have c: "0 < c2" "c1 < 1" using assms by linarith+
  have d2: "0 < rnd (1 - c2)"
    using c(1) assms(3) by (rule odds_double_bounds(1))
  have "rnd (1 - c2) \<le> rnd (1 - c1)"
    using assms by (intro rnd_mono_pos) simp_all
  then have "c1 / rnd (1 - c1) \<le> c2 / rnd (1 - c2)"
    using assms d2 by (intro frac_le) simp_all
  moreover have "0 < c1 / rnd (1 - c1)"
    using assms(1) odds_double_bounds(1) [OF assms(1) c(2)] by simp
  ultimately show ?thesis
    unfolding odds_double_def by (intro rnd_mono_pos)
qed

subsection \<open>The reward in doubles\<close>

lemma reward_double_eq:
  "reward_double lg prior p =
     Some (rnd (lg (odds_double (clamp p dbl_prec dbl_upper))
              - lg (odds_double (clamp prior dbl_prec dbl_upper))))"
proof -
  have le: "dbl_prec \<le> dbl_upper"
    using dbl_consts_range by simp
  have cp: "dbl_prec \<le> clamp p dbl_prec dbl_upper" "clamp p dbl_prec dbl_upper \<le> dbl_upper"
    using clamp_between [OF le, of p] by simp_all
  have cq: "dbl_prec \<le> clamp prior dbl_prec dbl_upper"
      "clamp prior dbl_prec dbl_upper \<le> dbl_upper"
    using clamp_between [OF le, of prior] by simp_all
  have "0 < rnd (1 - clamp p dbl_prec dbl_upper)"
    using cp dbl_consts_range by (intro odds_double_bounds(1)) linarith+
  moreover have "0 < rnd (1 - clamp prior dbl_prec dbl_upper)"
    using cq dbl_consts_range by (intro odds_double_bounds(1)) linarith+
  moreover have "0 < odds_double (clamp p dbl_prec dbl_upper)"
    using cp by (rule odds_double_window(1))
  moreover have "0 < odds_double (clamp prior dbl_prec dbl_upper)"
    using cq by (rule odds_double_window(1))
  ultimately show ?thesis
    by (simp add: reward_double_def Let_def rnd_consts odds_double_def)
qed

lemma log_accurate_rnd_ln: "log_accurate (\<lambda>x. rnd (ln x))"
  unfolding log_accurate_def
proof (intro allI impI)
  fix x :: real
  assume x: "1 / 10000 \<le> x \<and> x \<le> 10000"
  then have pos: "0 < x" by linarith
  have up: "ln x \<le> 14"
    using x pos by (intro ln_le_14) simp_all
  have "ln (1 / x) \<le> 14"
    using x pos by (intro ln_le_14) (simp_all add: field_simps)
  then have lo: "- 14 \<le> ln x"
    using pos by (simp add: ln_div)
  have "\<bar>rnd (ln x) - ln x\<bar> \<le> \<bar>ln x\<bar> / 2 ^ 53"
    by (rule rnd_rel)
  also have "\<dots> \<le> 14 / 2 ^ 53"
    using up lo by (intro divide_right_mono) simp_all
  also have "\<dots> \<le> 1 / 2 ^ 49"
    by simp
  finally show "\<bar>rnd (ln x) - ln x\<bar> \<le> 1 / 2 ^ 49" .
qed

lemma log_accurate_ln_double: "log_accurate ln_double"
  using log_accurate_rnd_ln by (simp add: ln_double_def [abs_def])

lemma lg_odds_double:
  assumes "log_accurate lg" "dbl_prec \<le> c" "c \<le> dbl_upper"
  shows "\<bar>lg (odds_double c) - ln (odds_double c)\<bar> \<le> 1 / 2 ^ 49"
  using assms(1) odds_double_window [OF assms(2,3)] by (simp add: log_accurate_def)

lemma reward_double_exceeds:
  assumes "log_accurate lg"
  shows "\<exists>r. reward_double lg 0 1 = Some r \<and> 2 * ln 9999 < r"
proof -
  define z where "z = lg (odds_double dbl_upper) - lg (odds_double dbl_prec)"
  define B :: real where "B = ln 9999"
  define \<delta> :: real where "\<delta> = 1 / 2 ^ 49"
  define k1 :: real where "k1 = 2 / 10 ^ 13"
  define k2 :: real where "k2 = 1 / 10 ^ 15"
  define g :: real where "g = 109 / 10 ^ 15"
  define w :: real where "w = 29 / 2 ^ 53"
  have r: "dbl_prec \<le> dbl_prec" "dbl_prec \<le> dbl_upper" "dbl_upper \<le> dbl_upper"
    using dbl_consts_range by simp_all
  have c: "clamp 1 dbl_prec dbl_upper = dbl_upper" "clamp 0 dbl_prec dbl_upper = dbl_prec"
    using dbl_consts_range by (simp_all add: clamp_def Let_def)
  have B: "0 \<le> B" "B \<le> 14"
    unfolding B_def by (simp, intro ln_le_14) simp_all
  have acc: "\<bar>lg (odds_double dbl_upper) - ln (odds_double dbl_upper)\<bar> \<le> \<delta>"
      "\<bar>lg (odds_double dbl_prec) - ln (odds_double dbl_prec)\<bar> \<le> \<delta>"
    unfolding \<delta>_def
    using lg_odds_double [OF assms r(2,3)] lg_odds_double [OF assms r(1,2)] by simp_all
  have win: "B + g \<le> ln (odds_double dbl_upper)" "ln (odds_double dbl_upper) \<le> B + k1"
      "- B - k2 \<le> ln (odds_double dbl_prec)" "ln (odds_double dbl_prec) \<le> - B + k2"
    unfolding B_def k1_def k2_def g_def
    using ln_odds_double_range [OF r(2,3)] ln_odds_double_range [OF r(1,2)]
      ln_odds_double_upper ln_odds_double_prec by simp_all
  have zlo: "2 * B + g - k2 - 2 * \<delta> \<le> z"
    unfolding z_def using acc win by linarith
  have zhi: "z \<le> 2 * B + k1 + k2 + 2 * \<delta>"
    unfolding z_def using acc win by linarith
  have num: "k1 + k2 + 2 * \<delta> \<le> 1" "0 < g - k2 - 2 * \<delta> - w" "0 \<le> g - k2 - 2 * \<delta>"
    by (simp_all add: k1_def k2_def \<delta>_def w_def g_def)
  have z29: "\<bar>z\<bar> \<le> 29"
    using zlo zhi num B by linarith
  have "\<bar>rnd z - z\<bar> \<le> \<bar>z\<bar> / 2 ^ 53"
    by (rule rnd_rel)
  also have "\<dots> \<le> w"
    unfolding w_def using z29 by (intro divide_right_mono) simp_all
  finally have "z - w \<le> rnd z"
    by linarith
  then have "2 * B < rnd z"
    using zlo num(2) by linarith
  then show ?thesis
    by (simp add: reward_double_eq c z_def B_def)
qed

lemma reward_double_nonneg:
  assumes "mono lg" "prior \<le> p"
  shows "\<exists>r. reward_double lg prior p = Some r \<and> 0 \<le> r"
proof -
  define cp where "cp = clamp p dbl_prec dbl_upper"
  define cq where "cq = clamp prior dbl_prec dbl_upper"
  have le: "dbl_prec \<le> dbl_upper"
    using dbl_consts_range by simp
  have cp: "dbl_prec \<le> cp" "cp \<le> dbl_upper"
    using clamp_between [OF le, of p] by (simp_all add: cp_def)
  have cq: "dbl_prec \<le> cq" "cq \<le> dbl_upper"
    using clamp_between [OF le, of prior] by (simp_all add: cq_def)
  have "cq \<le> cp"
    unfolding cp_def cq_def using assms(2) by (rule clamp_mono)
  then have "odds_double cq \<le> odds_double cp"
    using cq cp dbl_consts_range by (intro odds_double_mono) linarith+
  then have "lg (odds_double cq) \<le> lg (odds_double cp)"
    using assms(1) by (simp add: monoD)
  then have "0 \<le> rnd (lg (odds_double cp) - lg (odds_double cq))"
    by (intro rnd_nonneg) simp
  then show ?thesis
    by (simp add: reward_double_eq cp_def cq_def)
qed

lemma reward_double_nonpos:
  assumes "mono lg" "p \<le> prior"
  shows "\<exists>r. reward_double lg prior p = Some r \<and> r \<le> 0"
proof -
  define cp where "cp = clamp p dbl_prec dbl_upper"
  define cq where "cq = clamp prior dbl_prec dbl_upper"
  have le: "dbl_prec \<le> dbl_upper"
    using dbl_consts_range by simp
  have cp: "dbl_prec \<le> cp" "cp \<le> dbl_upper"
    using clamp_between [OF le, of p] by (simp_all add: cp_def)
  have cq: "dbl_prec \<le> cq" "cq \<le> dbl_upper"
    using clamp_between [OF le, of prior] by (simp_all add: cq_def)
  have "cp \<le> cq"
    unfolding cp_def cq_def using assms(2) by (rule clamp_mono)
  then have "odds_double cp \<le> odds_double cq"
    using cq cp dbl_consts_range by (intro odds_double_mono) linarith+
  then have "lg (odds_double cp) \<le> lg (odds_double cq)"
    using assms(1) by (simp add: monoD)
  then have "rnd (lg (odds_double cp) - lg (odds_double cq)) \<le> 0"
    by (intro rnd_nonpos) simp
  then show ?thesis
    by (simp add: reward_double_eq cp_def cq_def)
qed

lemma reward_double_same_clamp:
  assumes "clamp prior dbl_prec dbl_upper = clamp p dbl_prec dbl_upper"
  shows "reward_double lg prior p = Some 0"
  by (simp add: reward_double_eq assms rnd_def)

subsection \<open>The fold of the aggregator\<close>

lemma foldl_add_sum_list: "foldl (\<lambda>acc x. acc + f x) a xs = a + sum_list (map f xs)"
  for a :: real
  by (induction xs arbitrary: a) simp_all

lemma sum_list_map_divide: "sum_list (map (\<lambda>x. f x / c) xs) = sum_list (map f xs) / c"
  for c :: real
  by (induction xs) (simp_all add: add_divide_distrib)

lemma expectedReward_sum:
  "expectedReward pop sam =
     sum_list (map (\<lambda>ev. \<bar>reward (prob pop ev) (prob sam ev)\<bar> / real (length (events pop)))
       (events pop))"
  by (simp add: expectedReward_def Let_def foldl_add_sum_list)

section \<open>The reward function\<close>

text \<open>
  C1: for all real \<open>prior\<close> and \<open>p\<close>, \<open>reward prior p\<close> is
  \<open>ln (p' / (1 - p')) - ln (prior' / (1 - prior'))\<close>, where \<open>p'\<close> and \<open>prior'\<close>
  are \<open>p\<close> and \<open>prior\<close> clamped into \<open>[0.0001, 0.9999]\<close>.
\<close>

theorem reward_logit_difference:
  "reward prior p =
     ln (clamped p / (1 - clamped p)) - ln (clamped prior / (1 - clamped prior))
   \<and> 0.0001 \<le> clamped p \<and> clamped p \<le> 0.9999
   \<and> 0.0001 \<le> clamped prior \<and> clamped prior \<le> 0.9999"
  using clamped_range [of p] clamped_range [of prior]
  by (simp add: reward_def Let_def clamp_prec)

text \<open>
  C3, as the spec states it: there are \<open>prior\<close> and \<open>p\<close> in \<open>(0, 1)\<close> at which
  \<open>reward prior p\<close> differs from \<open>- reward p prior\<close>. There is no such pair: the
  reward is a difference of two log-odds, and swapping the arguments swaps the two
  terms.
\<close>

theorem reward_no_asymmetric_pair:
  "\<not> (\<exists>prior p. 0 < prior \<and> prior < 1 \<and> 0 < p \<and> p < 1 \<and> reward prior p \<noteq> - reward p prior)"
  by (simp add: reward_logit)

text \<open>
  C3, amended: for all \<open>prior\<close> and \<open>p\<close> in \<open>(0, 1)\<close>,
  \<open>reward prior p = - reward p prior\<close>.
\<close>

theorem reward_antisymmetric:
  "0 < prior \<Longrightarrow> prior < 1 \<Longrightarrow> 0 < p \<Longrightarrow> p < 1 \<Longrightarrow> reward prior p = - reward p prior"
  by (rule reward_swap)

theorem reward_antisymmetric_witness:
  "(0::real) < 0.2 \<and> (0.2::real) < 1 \<and> (0::real) < 0.7 \<and> (0.7::real) < 1
   \<and> reward 0.2 0.7 = - reward 0.7 0.2"
  using reward_antisymmetric [of "0.2" "0.7"] by simp




text \<open>
  C5: for every fixed \<open>prior\<close>, the reward is monotonically increasing in \<open>p\<close>:
  \<open>p1 \<le> p2\<close> gives \<open>reward prior p1 \<le> reward prior p2\<close>.
\<close>

theorem reward_monotone: "p1 \<le> p2 \<Longrightarrow> reward prior p1 \<le> reward prior p2"
proof -
  assume "p1 \<le> p2"
  then have "clamped p1 \<le> clamped p2"
    by (rule clamped_mono)
  moreover have "0 < clamped p1" "clamped p2 < 1"
    using clamped_range [of p1] clamped_range [of p2] by simp_all
  ultimately have "logit (clamped p1) \<le> logit (clamped p2)"
    by (intro logit_mono)
  then show ?thesis
    by (simp add: reward_logit)
qed

theorem reward_monotone_witness: "(0.2::real) \<le> 0.7 \<and> reward 0.5 0.2 \<le> reward 0.5 0.7"
  using reward_monotone [of "0.2" "0.7" "0.5"] by simp

text \<open>
  C6: for all \<open>prior\<close> in \<open>(0, 1)\<close>, \<open>reward prior prior = 0\<close>.
\<close>

theorem reward_self_zero: "0 < prior \<Longrightarrow> prior < 1 \<Longrightarrow> reward prior prior = 0"
  by (rule reward_same)

theorem reward_self_zero_witness:
  "(0::real) < 0.25 \<and> (0.25::real) < 1 \<and> reward 0.25 0.25 = 0"
  using reward_self_zero [of "0.25"] by simp

text \<open>
  C10, as stated: for all inputs the absolute value of the reward is at most
  \<open>2 * ln ((1 - 0.0001) / 0.0001)\<close>. In exact arithmetic this holds
  (\<open>reward_exact_bound\<close>), with equality at \<open>reward 0 1\<close>. In the doubles of the
  program it fails at that input: \<^verbatim>\<open>1 - prec\<close> rounds to a double just
  above \<open>0.9999\<close>, its distance from 1 is \<open>9.999999999998899e-05\<close>, and the odds
  of the upper clamp bound exceed 9999 by more than the logarithm and the final
  subtraction can lose. With the correctly rounded logarithm (and with any other
  that is accurate, by \<open>reward_double_exceeds\<close>):
\<close>

theorem reward_double_exceeds_bound:
  "(case reward_double ln_double 0 1 of
      None \<Rightarrow> False
    | Some r \<Rightarrow> 2 * ln ((1 - 0.0001) / 0.0001) < \<bar>r\<bar>)"
proof -
  obtain r where "reward_double ln_double 0 1 = Some r" "2 * ln 9999 < r"
    using reward_double_exceeds [OF log_accurate_ln_double] by blast
  then show ?thesis
    by simp
qed

text \<open>
  C10, amended: for all inputs \<open>prior\<close> and \<open>p\<close>, the reward as the program computes
  it in doubles is a finite number, and its absolute value is at most
  \<open>2 * ln ((1 - 0.0001) / 0.0001) + 1 / 10 ^ 12\<close>, for every logarithm of the engine
  that is accurate to \<open>1 / 2 ^ 49\<close> on \<open>[0.0001, 10000]\<close>.
\<close>

theorem reward_double_bounded:
  assumes "log_accurate lg"
  shows "\<exists>r. reward_double lg prior p = Some r
           \<and> \<bar>r\<bar> \<le> 2 * ln ((1 - 0.0001) / 0.0001) + 1 / 10 ^ 12"
proof -
  define cp where "cp = clamp p dbl_prec dbl_upper"
  define cq where "cq = clamp prior dbl_prec dbl_upper"
  define z where "z = lg (odds_double cp) - lg (odds_double cq)"
  define B :: real where "B = ln 9999"
  define \<delta> :: real where "\<delta> = 1 / 2 ^ 49"
  define k1 :: real where "k1 = 2 / 10 ^ 13"
  define k2 :: real where "k2 = 1 / 10 ^ 15"
  define w :: real where "w = 29 / 2 ^ 53"
  have le: "dbl_prec \<le> dbl_upper"
    using dbl_consts_range by simp
  have cp: "dbl_prec \<le> cp" "cp \<le> dbl_upper"
    using clamp_between [OF le, of p] by (simp_all add: cp_def)
  have cq: "dbl_prec \<le> cq" "cq \<le> dbl_upper"
    using clamp_between [OF le, of prior] by (simp_all add: cq_def)
  have B: "0 \<le> B" "B \<le> 14"
    unfolding B_def by (simp, intro ln_le_14) simp_all
  have acc: "\<bar>lg (odds_double cp) - ln (odds_double cp)\<bar> \<le> \<delta>"
      "\<bar>lg (odds_double cq) - ln (odds_double cq)\<bar> \<le> \<delta>"
    unfolding \<delta>_def using lg_odds_double [OF assms cp] lg_odds_double [OF assms cq]
    by simp_all
  have win: "- B - k2 \<le> ln (odds_double cp)" "ln (odds_double cp) \<le> B + k1"
      "- B - k2 \<le> ln (odds_double cq)" "ln (odds_double cq) \<le> B + k1"
    unfolding B_def k1_def k2_def
    using ln_odds_double_range [OF cp] ln_odds_double_range [OF cq] by simp_all
  have zb: "\<bar>z\<bar> \<le> 2 * B + k1 + k2 + 2 * \<delta>"
    unfolding z_def using acc win by linarith
  have num: "k1 + k2 + 2 * \<delta> \<le> 1" "k1 + k2 + 2 * \<delta> + w \<le> 1 / 10 ^ 12"
    by (simp_all add: k1_def k2_def \<delta>_def w_def)
  have z29: "\<bar>z\<bar> \<le> 29"
    using zb num(1) B by linarith
  have "\<bar>rnd z - z\<bar> \<le> \<bar>z\<bar> / 2 ^ 53"
    by (rule rnd_rel)
  also have "\<dots> \<le> w"
    unfolding w_def using z29 by (intro divide_right_mono) simp_all
  finally have "\<bar>rnd z\<bar> \<le> 2 * B + k1 + k2 + 2 * \<delta> + w"
    using zb by linarith
  then have "\<bar>rnd z\<bar> \<le> 2 * B + 1 / 10 ^ 12"
    using num(2) by linarith
  then show ?thesis
    by (simp add: reward_double_eq z_def cp_def cq_def B_def)
qed

theorem reward_double_bounded_witness:
  "log_accurate ln_double
   \<and> (\<exists>r. reward_double ln_double 0 1 = Some r
           \<and> \<bar>r\<bar> \<le> 2 * ln ((1 - 0.0001) / 0.0001) + 1 / 10 ^ 12)"
  using log_accurate_ln_double reward_double_bounded [of ln_double 0 1] by blast

section \<open>The slack function\<close>

text \<open>
  C8: for all \<open>x > 0\<close>, \<open>slack x = 0.95 * exp (- (ln x)\<^sup>2 / 6)\<close>, and
  consequently \<open>slack x \<le> 0.95\<close>.
\<close>

theorem slack_closed_form:
  "0 < x \<Longrightarrow> slack x = 0.95 * exp (- (ln x)\<^sup>2 / 6) \<and> slack x \<le> 0.95"
  by (simp add: slack_def Let_def power2_eq_square)

theorem slack_closed_form_witness:
  "(0::real) < 1 \<and> slack 1 = 0.95 * exp (- (ln 1)\<^sup>2 / 6) \<and> slack 1 \<le> 0.95"
  using slack_closed_form [of 1] by simp

section \<open>The expected reward\<close>

text \<open>
  C2: for every pair of categorical distributions, the expected reward runs over the
  events of the reference distribution and is the unweighted arithmetic mean, over
  those events \<open>e\<close>, of the absolute reward of the two probabilities of \<open>e\<close>. With no
  event at all the fold returns its initial value 0.
\<close>

theorem expectedReward_unweighted_mean:
  "expectedReward referenceDist candidateDist =
     (if events referenceDist = [] then 0
      else (\<Sum>e\<leftarrow>events referenceDist.
              \<bar>reward (prob referenceDist e) (prob candidateDist e)\<bar>)
           / real (length (events referenceDist)))"
  by (simp add: expectedReward_sum sum_list_map_divide)

text \<open>
  C7: for any non-degenerate categorical distribution \<open>D\<close> (at least one event, a
  positive total weight), \<open>expectedReward D D = 0\<close>.
\<close>

theorem expectedReward_self_zero:
  "events D \<noteq> [] \<Longrightarrow> 0 < weightSum D \<Longrightarrow> expectedReward D D = 0"
  by (simp add: expectedReward_sum reward_same)

theorem expectedReward_self_zero_witness:
  "events (train [''a'', ''b'']) \<noteq> [] \<and> 0 < weightSum (train [''a'', ''b''])
   \<and> expectedReward (train [''a'', ''b'']) (train [''a'', ''b'']) = 0"
  using expectedReward_self_zero [of "train [''a'', ''b'']"]
  by (simp add: train_def learn_def new_categorical_def events_def weightSum_def)

text \<open>
  C9: for every pair of categorical distributions, the expected reward is not
  negative: each term of the fold is an absolute value divided by the number of
  events.
\<close>

theorem expectedReward_nonneg: "0 \<le> expectedReward referenceDist candidateDist"
  unfolding expectedReward_sum by (rule sum_list_nonneg) auto

section \<open>A worked example\<close>

text \<open>
  The population \<open>[a, b]\<close> against a sample \<open>[a, a]\<close> that never saw \<open>b\<close>: the
  sample gives \<open>a\<close> probability 1 and \<open>b\<close> probability 0, the clamp turns them into
  \<open>0.9999\<close> and \<open>0.0001\<close>, and both events contribute \<open>ln 9999\<close>.
\<close>

lemma train_ab: "train [''a'', ''b''] = \<lparr>weights = [(''a'', 1), (''b'', 1)], total = 2\<rparr>"
  by (simp add: train_def learn_def new_categorical_def)

lemma train_aa: "train [''a'', ''a''] = \<lparr>weights = [(''a'', 2)], total = 2\<rparr>"
  by (simp add: train_def learn_def new_categorical_def)

lemma expectedReward_unseen_example:
  "expectedReward (train [''a'', ''b'']) (train [''a'', ''a'']) = ln 9999"
proof -
  have "reward (1 / 2) 1 = ln 9999"
    by (simp add: reward_logit clamped_def logit_def)
  moreover have "reward (1 / 2) 0 = - ln 9999"
    by (simp add: reward_logit clamped_def logit_def ln_div)
  ultimately show ?thesis
    by (simp add: expectedReward_def Let_def train_ab train_aa events_def prob_def)
qed

end
